theory Spec2Isabelle
  imports Main "HOL-Library.Word" "HOL-Library.Signed_Division" "HOL-Library.Multiset"
begin

section \<open>Machine types of main.cpp\<close>

text \<open>
  \<^verbatim>\<open>unsigned long long\<close>, \<^verbatim>\<open>long long\<close> and \<^verbatim>\<open>size_t\<close> are 64-bit words, \<^verbatim>\<open>int\<close> is a
  32-bit word (the LP64 data model). On a word \<open>+\<close>, \<open>-\<close>, \<open>*\<close> and \<open>push_bit\<close> wrap
  modulo \<open>2 ^ 64\<close>, \<open>mod\<close> is the unsigned remainder, \<open>uint\<close>/\<open>unat\<close> read the word as
  unsigned and \<open>sint\<close> as two's complement.
\<close>

type_synonym ull = "64 word"
type_synonym ll = "64 word"
type_synonym cint = "32 word"

text \<open>
  The value of a \<^verbatim>\<open>char\<close> after integral promotion. \<^verbatim>\<open>char\<close> is taken as the signed
  8-bit type it is on x86-64: the bytes \<open>0 .. 127\<close> (all of ASCII) are their own code,
  the bytes \<open>128 .. 255\<close> are negative.
\<close>

definition char_code :: "char \<Rightarrow> int" where
  "char_code c = (if (of_char c :: int) < 128 then of_char c else of_char c - 256)"

text \<open>
  The remainder \<^verbatim>\<open>a % b\<close> of two \<^verbatim>\<open>long long\<close> values: C++ truncates the quotient
  towards zero, which is \<open>smod\<close> on the signed readings.
\<close>

definition srem :: "ll \<Rightarrow> ll \<Rightarrow> ll" where
  "srem a b = word_of_int (sint a smod sint b)"

section \<open>The three hash functions\<close>

text \<open>
  \<^verbatim>\<open>polynomial_hash\<close>, lines 21-31. The loop over the characters carries \<^verbatim>\<open>hash\<close>
  (unsigned) and \<^verbatim>\<open>p_pow\<close> (signed). In \<^verbatim>\<open>hash + (c - 'a' + 1) * p_pow\<close> the product is
  a \<^verbatim>\<open>long long\<close>; the usual arithmetic conversions turn it into an
  \<^verbatim>\<open>unsigned long long\<close> before the addition, and \<^verbatim>\<open>m\<close> likewise before the unsigned
  \<^verbatim>\<open>%\<close>. Both conversions keep the 64 bits as they are. The class calls the function
  with \<open>p = 31\<close> and \<open>m = 1000000009\<close> only; there the modulus is not zero and the signed
  products do not overflow (section ``The polynomial hash''), so the wrapping product
  of the words is the product the program computes.
\<close>

fun polynomial_loop :: "ll \<Rightarrow> ll \<Rightarrow> ull \<Rightarrow> ll \<Rightarrow> string \<Rightarrow> ull" where
  "polynomial_loop pp mm hash p_pow [] = hash"
| "polynomial_loop pp mm hash p_pow (c # cs) =
     polynomial_loop pp mm
       ((hash + word_of_int (char_code c - char_code CHR ''a'' + 1) * p_pow) mod mm)
       (srem (p_pow * pp) mm)
       cs"

definition polynomial_hash :: "string \<Rightarrow> ll \<Rightarrow> ll \<Rightarrow> ull" where
  "polynomial_hash s pp mm = polynomial_loop pp mm 0 1 s"

text \<open>\<^verbatim>\<open>djb2\<close>, lines 45-53: \<^verbatim>\<open>hash = ((hash << 5) + hash) + c\<close> from the seed 5381.\<close>

fun djb2_loop :: "ull \<Rightarrow> string \<Rightarrow> ull" where
  "djb2_loop hash [] = hash"
| "djb2_loop hash (c # cs) =
     djb2_loop ((push_bit 5 hash + hash) + word_of_int (char_code c)) cs"

definition djb2 :: "string \<Rightarrow> ull" where
  "djb2 s = djb2_loop 5381 s"

text \<open>\<^verbatim>\<open>sdbm\<close>, lines 65-73: \<^verbatim>\<open>hash = c + (hash << 6) + (hash << 16) - hash\<close> from 0.\<close>

fun sdbm_loop :: "ull \<Rightarrow> string \<Rightarrow> ull" where
  "sdbm_loop hash [] = hash"
| "sdbm_loop hash (c # cs) =
     sdbm_loop (word_of_int (char_code c) + push_bit 6 hash + push_bit 16 hash - hash) cs"

definition sdbm :: "string \<Rightarrow> ull" where
  "sdbm s = sdbm_loop 0 s"

section \<open>The bit array\<close>

text \<open>
  \<^verbatim>\<open>bitset<1000001>\<close> is modelled by the set of the positions whose bit is true;
  \<^verbatim>\<open>bits(0)\<close>, all bits false, is the empty set. \<^verbatim>\<open>bits.size()\<close> is the constant
  1000001. \<^verbatim>\<open>bitset::set(pos)\<close> and \<^verbatim>\<open>bitset::test(pos)\<close> throw \<^verbatim>\<open>std::out_of_range\<close>
  when \<^verbatim>\<open>pos\<close> is not below the size; the exception is the error value.
\<close>

datatype error = Out_of_range

type_synonym bitset = "nat set"

definition bitset_size :: "ull" where
  "bitset_size = 1000001"

definition bitset_set :: "ull \<Rightarrow> bitset \<Rightarrow> error + bitset" where
  "bitset_set pos b = (if pos < bitset_size then Inr (insert (unat pos) b) else Inl Out_of_range)"

definition bitset_test :: "ull \<Rightarrow> bitset \<Rightarrow> error + bool" where
  "bitset_test pos b = (if pos < bitset_size then Inr (unat pos \<in> b) else Inl Out_of_range)"

section \<open>The class BloomFilter\<close>

text \<open>
  The data members of lines 78-82. The member \<^verbatim>\<open>size\<close> is the field \<open>size_bf\<close>, since
  \<open>size\<close> is a constant of HOL. Every member function is a function from the object
  to a result and the object afterwards, or to the exception it throws.
\<close>

record bloom_filter =
  p :: ll
  m :: ll
  size_bf :: ll
  filename :: string
  bits :: bitset

text \<open>\<^verbatim>\<open>add\<close>, lines 104-112.\<close>

definition add :: "string \<Rightarrow> bloom_filter \<Rightarrow> error + bloom_filter" where
  "add s bf =
     (let hash = polynomial_hash s (p bf) (m bf);
          hash2 = djb2 s mod m bf;
          hash3 = sdbm s mod m bf
      in case bitset_set (hash mod bitset_size) (bits bf) of
           Inl e \<Rightarrow> Inl e
         | Inr b1 \<Rightarrow>
             (case bitset_set (hash2 mod bitset_size) b1 of
                Inl e \<Rightarrow> Inl e
              | Inr b2 \<Rightarrow>
                  (case bitset_set (hash3 mod bitset_size) b2 of
                     Inl e \<Rightarrow> Inl e
                   | Inr b3 \<Rightarrow> Inr (bf\<lparr>bits := b3\<rparr>))))"

text \<open>
  \<^verbatim>\<open>contains\<close>, lines 114-121. \<^verbatim>\<open>&&\<close> evaluates its right operand only when the left
  one is true.
\<close>

definition contains :: "string \<Rightarrow> bloom_filter \<Rightarrow> error + (bool \<times> bloom_filter)" where
  "contains s bf =
     (let hash = polynomial_hash s (p bf) (m bf);
          hash2 = djb2 s mod m bf;
          hash3 = sdbm s mod m bf
      in case bitset_test (hash mod bitset_size) (bits bf) of
           Inl e \<Rightarrow> Inl e
         | Inr t1 \<Rightarrow>
             if \<not> t1 then Inr (False, bf)
             else (case bitset_test (hash2 mod bitset_size) (bits bf) of
                Inl e \<Rightarrow> Inl e
              | Inr t2 \<Rightarrow>
                  if \<not> t2 then Inr (False, bf)
                  else (case bitset_test (hash3 mod bitset_size) (bits bf) of
                     Inl e \<Rightarrow> Inl e
                   | Inr t3 \<Rightarrow> Inr (t3, bf))))"

text \<open>
  The files the program can read: a file name is mapped to the lines \<^verbatim>\<open>getline\<close>
  yields, or to \<open>None\<close> when \<^verbatim>\<open>is_open()\<close> is false.
  What the program writes is a list of events, one for each output statement, in
  program order.
\<close>

type_synonym files = "string \<Rightarrow> string list option"

datatype event =
    Unable_to_open string
  | Checking string bool
  | Total_positives cint
  | Total_negatives cint
  | Malicious_header
  | Malicious_url string
  | No_malicious

text \<open>The constructor, lines 85-102, with its loop \<^verbatim>\<open>add(line); size++;\<close>.\<close>

fun load_lines :: "string list \<Rightarrow> bloom_filter \<Rightarrow> error + bloom_filter" where
  "load_lines [] bf = Inr bf"
| "load_lines (line # rest) bf =
     (case add line bf of
        Inl e \<Rightarrow> Inl e
      | Inr bf' \<Rightarrow> load_lines rest (bf'\<lparr>size_bf := size_bf bf' + 1\<rparr>))"

definition BloomFilter :: "files \<Rightarrow> string \<Rightarrow> error + (bloom_filter \<times> event list)" where
  "BloomFilter fs fname =
     (let bf = \<lparr>p = 31, m = 1000000009, size_bf = 0, filename = fname, bits = {}\<rparr>
      in case fs fname of
           Some ls \<Rightarrow>
             (case load_lines ls bf of Inl e \<Rightarrow> Inl e | Inr bf' \<Rightarrow> Inr (bf', []))
         | None \<Rightarrow> Inr (bf, [Unable_to_open fname]))"

text \<open>
  \<^verbatim>\<open>test\<close>, lines 123-166. The loop carries the object, the two \<^verbatim>\<open>int\<close> counters, the
  vector of matched lines and the output so far; \<^verbatim>\<open>positives += result\<close> adds the
  \<^verbatim>\<open>bool\<close> as 0 or 1.
\<close>

fun test_loop ::
  "string list \<Rightarrow> bloom_filter \<Rightarrow> cint \<Rightarrow> cint \<Rightarrow> string list \<Rightarrow> event list \<Rightarrow>
   error + (bloom_filter \<times> cint \<times> cint \<times> string list \<times> event list)" where
  "test_loop [] bf positives negatives maliciousUrls out =
     Inr (bf, positives, negatives, maliciousUrls, out)"
| "test_loop (line # rest) bf positives negatives maliciousUrls out =
     (case contains line bf of
        Inl e \<Rightarrow> Inl e
      | Inr (result, bf') \<Rightarrow>
          test_loop rest bf'
            (positives + of_bool result)
            (negatives + of_bool (\<not> result))
            (if result then maliciousUrls @ [line] else maliciousUrls)
            (out @ [Checking line result]))"

definition test :: "files \<Rightarrow> string \<Rightarrow> bloom_filter \<Rightarrow> error + (bloom_filter \<times> event list)" where
  "test fs fname bf =
     (case (case fs fname of
              Some ls \<Rightarrow> test_loop ls bf 0 0 [] []
            | None \<Rightarrow> Inr (bf, 0, 0, [], [Unable_to_open fname])) of
        Inl e \<Rightarrow> Inl e
      | Inr (bf', positives, negatives, maliciousUrls, out) \<Rightarrow>
          Inr (bf',
               out @ [Total_positives positives, Total_negatives negatives] @
               (if maliciousUrls \<noteq> []
                then Malicious_header # map Malicious_url maliciousUrls
                else [No_malicious])))"

text \<open>
  A client's sequence of calls \<^verbatim>\<open>bf.add(s1); bf.add(s2); ...\<close>, stopping at the first
  exception.
\<close>

fun add_all :: "string list \<Rightarrow> bloom_filter \<Rightarrow> error + bloom_filter" where
  "add_all [] bf = Inr bf"
| "add_all (s # ss) bf =
     (case add s bf of Inl e \<Rightarrow> Inl e | Inr bf' \<Rightarrow> add_all ss bf')"

section \<open>The hash functions as the specification words them\<close>

text \<open>
  The recurrences of DJB2 and SDBM on mathematical integers, each step reduced
  modulo \<open>2 ^ 64\<close>; a left shift of an integer is \<open>push_bit\<close>.
\<close>

definition djb2_spec :: "string \<Rightarrow> int" where
  "djb2_spec s = fold (\<lambda>c old_hash. (old_hash * 33 + char_code c) mod 2 ^ 64) s 5381"

definition sdbm_spec :: "string \<Rightarrow> int" where
  "sdbm_spec s =
     fold (\<lambda>c old_hash.
             (char_code c + push_bit 6 old_hash + push_bit 16 old_hash - old_hash) mod 2 ^ 64)
          s 0"

text \<open>
  The polynomial hash as a sum over the positions of the string, reduced modulo \<open>mm\<close>
  (the remainder of the mathematical integers, which lies in \<open>[0, mm)\<close>).
\<close>

definition polynomial_spec :: "string \<Rightarrow> int \<Rightarrow> int \<Rightarrow> int" where
  "polynomial_spec s pp mm =
     (\<Sum>i<length s. (char_code (s ! i) - char_code CHR ''a'' + 1) * pp ^ i) mod mm"

text \<open>The three positions \<^verbatim>\<open>add\<close> and \<^verbatim>\<open>contains\<close> compute for a string.\<close>

definition indices :: "bloom_filter \<Rightarrow> string \<Rightarrow> nat set" where
  "indices bf s =
     {unat (polynomial_hash s (p bf) (m bf) mod bitset_size),
      unat (djb2 s mod m bf mod bitset_size),
      unat (sdbm s mod m bf mod bitset_size)}"

text \<open>What \<^verbatim>\<open>contains\<close> answers for a string on a given filter.\<close>

definition possibly_malicious :: "bloom_filter \<Rightarrow> string \<Rightarrow> bool" where
  "possibly_malicious bf s = (contains s bf = Inr (True, bf))"

text \<open>The equations that evaluate the hash functions on a literal string.\<close>

lemmas hash_eval =
  polynomial_hash_def djb2_def sdbm_def char_code_def srem_def signed_modulo_int_def

section \<open>Properties of the hash functions\<close>

lemma uint_djb2_step:
  "uint (push_bit 5 h + h + word_of_int k :: ull) = (uint h * 33 + k) mod 2 ^ 64"
proof -
  have "push_bit 5 h + h + word_of_int k = (word_of_int (uint h * 33 + k) :: ull)"
    by (simp add: push_bit_eq_mult)
  then show ?thesis
    by (simp only: uint_word_of_int_eq take_bit_eq_mod) simp
qed

lemma uint_djb2_loop:
  "uint (djb2_loop h s) =
     fold (\<lambda>c old_hash. (old_hash * 33 + char_code c) mod 2 ^ 64) s (uint h)"
  by (induction s arbitrary: h) (simp_all add: uint_djb2_step)

lemma uint_sdbm_step:
  "uint (word_of_int k + push_bit 6 h + push_bit 16 h - h :: ull) =
     (k + push_bit 6 (uint h) + push_bit 16 (uint h) - uint h) mod 2 ^ 64"
proof -
  have "word_of_int k + push_bit 6 h + push_bit 16 h - h =
          (word_of_int (k + push_bit 6 (uint h) + push_bit 16 (uint h) - uint h) :: ull)"
    by (simp add: push_bit_eq_mult)
  then show ?thesis
    by (simp only: uint_word_of_int_eq take_bit_eq_mod) simp
qed

lemma uint_sdbm_loop:
  "uint (sdbm_loop h s) =
     fold (\<lambda>c old_hash.
             (char_code c + push_bit 6 old_hash + push_bit 16 old_hash - old_hash) mod 2 ^ 64)
          s (uint h)"
  by (induction s arbitrary: h) (simp_all add: uint_sdbm_step)

text \<open>
  C4. For every string, \<^verbatim>\<open>djb2\<close> is the fold from 5381 with the step
  \<open>old_hash * 33 + char_code\<close> and \<^verbatim>\<open>sdbm\<close> is the fold from 0 with the step
  \<open>char_code + (old_hash << 6) + (old_hash << 16) - old_hash\<close>, both in unsigned
  arithmetic modulo \<open>2 ^ 64\<close>: the unsigned value of each 64-bit result is the value of
  the recurrence on the integers with every step reduced modulo \<open>2 ^ 64\<close>.
\<close>

theorem djb2_sdbm_recurrence:
  "uint (djb2 s) = djb2_spec s \<and> uint (sdbm s) = sdbm_spec s"
  by (simp add: djb2_def sdbm_def djb2_spec_def sdbm_spec_def uint_djb2_loop uint_sdbm_loop)

section \<open>The polynomial hash\<close>

text \<open>
  With \<open>p = 31\<close> and \<open>m = 1000000009\<close> the running power stays in \<open>[0, m)\<close> and the
  products \<^verbatim>\<open>p_pow * p\<close> and \<^verbatim>\<open>(c - 'a' + 1) * p_pow\<close> stay far inside the range of
  \<^verbatim>\<open>long long\<close>, so the signed arithmetic never overflows. The result is always
  below the modulus.
\<close>

lemma polynomial_loop_less: "hash < mm \<Longrightarrow> polynomial_loop pp mm hash p_pow s < mm"
proof (induction s arbitrary: hash p_pow)
  case Nil
  then show ?case by simp
next
  case (Cons c cs)
  from Cons.prems have "mm \<noteq> 0"
    by (auto simp: word_less_nat_alt)
  then have "0 < mm"
    by (simp add: word_neq_0_conv)
  then show ?case
    by (simp add: Cons.IH word_mod_less_divisor)
qed

lemma polynomial_hash_less: "mm \<noteq> 0 \<Longrightarrow> polynomial_hash s pp mm < mm"
  by (simp add: polynomial_hash_def polynomial_loop_less word_neq_0_conv)

lemma uint_hash_step:
  assumes "uint hash < 1000000009" and "uint p_pow < 1000000009" and "0 \<le> k" and "k \<le> 31"
  shows "uint ((hash + word_of_int k * p_pow) mod (1000000009 :: ull)) =
           (uint hash + k * uint p_pow) mod 1000000009"
proof -
  have "k * uint p_pow \<le> 31 * uint p_pow"
    using assms by (intro mult_right_mono) simp_all
  with assms have bound: "uint hash + k * uint p_pow < 2 ^ 64"
    by simp
  have nonneg: "0 \<le> uint hash + k * uint p_pow"
    using assms by simp
  have eq: "hash + word_of_int k * p_pow = (word_of_int (uint hash + k * uint p_pow) :: ull)"
    by simp
  have "uint (word_of_int (uint hash + k * uint p_pow) :: ull) = uint hash + k * uint p_pow"
    using bound nonneg by (simp only: uint_word_of_int_eq take_bit_eq_mod) simp
  then have "uint (hash + word_of_int k * p_pow) = uint hash + k * uint p_pow"
    by (simp only: eq)
  then show ?thesis
    by (simp add: uint_mod)
qed

lemma smod_nonneg: "0 \<le> a \<Longrightarrow> 0 < b \<Longrightarrow> a smod b = a mod (b :: int)"
  by (auto simp add: signed_modulo_int_def sgn_if)

lemma uint_p_pow_step:
  assumes "uint p_pow < 1000000009"
  shows "uint (srem (p_pow * 31) (1000000009 :: ll)) = (uint p_pow * 31) mod 1000000009"
proof -
  have eq: "p_pow * 31 = (word_of_int (uint p_pow * 31) :: ll)"
    by simp
  have "0 \<le> uint p_pow * 31"
    by simp
  then have "- (2 ^ 63) \<le> uint p_pow * 31"
    by (rule order_trans [rotated]) simp
  moreover have "uint p_pow * 31 < 2 ^ 63"
    using assms by simp
  ultimately have stb: "signed_take_bit 63 (uint p_pow * 31) = uint p_pow * 31"
    by (rule signed_take_bit_int_eq_self)
  have "sint (word_of_int (uint p_pow * 31) :: ll) = signed_take_bit 63 (uint p_pow * 31)"
    by (simp only: sint_sbintrunc') simp
  then have s: "sint (p_pow * 31) = uint p_pow * 31"
    by (simp only: eq stb)
  have m: "sint (1000000009 :: ll) = 1000000009"
    by simp
  have "(uint p_pow * 31) smod 1000000009 = (uint p_pow * 31) mod 1000000009"
    by (rule smod_nonneg) simp_all
  moreover have "(uint p_pow * 31) mod 1000000009 < (2 ^ 64 :: int)"
    by (rule less_trans [OF pos_mod_bound]) simp_all
  moreover have "0 \<le> (uint p_pow * 31) mod (1000000009 :: int)"
    by simp
  ultimately show ?thesis
    unfolding srem_def s m
    by (simp add: uint_word_of_int_eq take_bit_eq_mod)
qed


lemma char_code_le: "char_code c \<le> 127"
proof -
  have "(of_char c :: int) mod 256 < 256"
    by (rule pos_mod_bound) simp
  then have "(of_char c :: int) < 256"
    by (simp only: of_char_mod_256)
  then show ?thesis
    by (simp add: char_code_def)
qed

lemma sum_mod_cong:
  fixes f g :: "nat \<Rightarrow> int"
  assumes "\<And>i. i < n \<Longrightarrow> f i mod k = g i mod k"
  shows "(\<Sum>i<n. f i) mod k = (\<Sum>i<n. g i) mod k"
proof -
  have "(\<Sum>i<n. f i) mod k = (\<Sum>i<n. f i mod k) mod k"
    by (simp add: mod_sum_eq)
  also have "(\<Sum>i<n. f i mod k) = (\<Sum>i<n. g i mod k)"
    by (rule sum.cong) (simp_all add: assms)
  also have "(\<Sum>i<n. g i mod k) mod k = (\<Sum>i<n. g i) mod k"
    by (simp add: mod_sum_eq)
  finally show ?thesis .
qed

lemma uint_polynomial_loop:
  assumes "uint hash < 1000000009" and "uint p_pow < 1000000009"
    and "\<forall>c\<in>set s. 96 \<le> char_code c"
  shows "uint (polynomial_loop 31 1000000009 hash p_pow s) =
           (uint hash +
            (\<Sum>i<length s. (char_code (s ! i) - char_code CHR ''a'' + 1) * (uint p_pow * 31 ^ i)))
           mod 1000000009"
  using assms
proof (induction s arbitrary: hash p_pow)
  case Nil
  then show ?case by simp
next
  case (Cons c cs)
  define k where "k = char_code c - char_code CHR ''a'' + 1"
  define hash' where "hash' = (hash + word_of_int k * p_pow) mod (1000000009 :: ull)"
  define p_pow' where "p_pow' = srem (p_pow * 31) (1000000009 :: ll)"
  define d where "d = (\<lambda>i. char_code (cs ! i) - char_code CHR ''a'' + 1)"
  have a: "char_code CHR ''a'' = 97"
    by (simp add: char_code_def)
  from Cons.prems(3) have "96 \<le> char_code c"
    by simp
  with char_code_le [of c] have k: "0 \<le> k" "k \<le> 31"
    by (simp_all add: k_def a)
  have h: "uint hash' = (uint hash + k * uint p_pow) mod 1000000009"
    unfolding hash'_def using Cons.prems(1,2) k by (rule uint_hash_step)
  have pw: "uint p_pow' = (uint p_pow * 31) mod 1000000009"
    unfolding p_pow'_def using Cons.prems(2) by (rule uint_p_pow_step)
  have hb: "uint hash' < 1000000009" and pb: "uint p_pow' < 1000000009"
    by (simp_all add: h pw)
  from Cons.prems(3) have rest: "\<forall>c\<in>set cs. 96 \<le> char_code c"
    by simp
  have step: "polynomial_loop 31 1000000009 hash p_pow (c # cs) =
      polynomial_loop 31 1000000009 hash' p_pow' cs"
    by (simp add: hash'_def p_pow'_def k_def)
  have "uint (polynomial_loop 31 1000000009 hash' p_pow' cs) =
      (uint hash' + (\<Sum>i<length cs. d i * (uint p_pow' * 31 ^ i))) mod 1000000009"
    unfolding d_def using hb pb rest by (rule Cons.IH)
  also have "\<dots> = ((uint hash + k * uint p_pow) + (\<Sum>i<length cs. d i * (uint p_pow' * 31 ^ i)))
      mod 1000000009"
    by (simp add: h mod_add_left_eq)
  also have "\<dots> = ((uint hash + k * uint p_pow) + (\<Sum>i<length cs. d i * (uint p_pow * 31 ^ Suc i)))
      mod 1000000009"
  proof (rule mod_add_cong [OF refl], rule sum_mod_cong)
    fix i
    have "d i * (uint p_pow' * 31 ^ i) mod 1000000009 =
        d i * ((uint p_pow * 31) * 31 ^ i) mod 1000000009"
      unfolding pw by (metis mod_mult_left_eq mod_mult_right_eq)
    then show "d i * (uint p_pow' * 31 ^ i) mod 1000000009 =
        d i * (uint p_pow * 31 ^ Suc i) mod 1000000009"
      by (simp add: mult.assoc)
  qed
  also have "(uint hash + k * uint p_pow) + (\<Sum>i<length cs. d i * (uint p_pow * 31 ^ Suc i)) =
      uint hash +
      (\<Sum>i<length (c # cs).
          (char_code ((c # cs) ! i) - char_code CHR ''a'' + 1) * (uint p_pow * 31 ^ i))"
    by (simp add: sum.lessThan_Suc_shift k_def d_def del: sum.lessThan_Suc)
  finally show ?case
    by (simp only: step)
qed

lemma polynomial_hash_spec_nonneg:
  assumes "\<forall>c\<in>set s. 96 \<le> char_code c"
  shows "uint (polynomial_hash s 31 1000000009) = polynomial_spec s 31 1000000009"
proof -
  have "uint (polynomial_loop 31 1000000009 0 1 s) =
      (uint (0 :: ull) +
       (\<Sum>i<length s. (char_code (s ! i) - char_code CHR ''a'' + 1) * (uint (1 :: ll) * 31 ^ i)))
      mod 1000000009"
    using assms by (intro uint_polynomial_loop) simp_all
  then show ?thesis
    by (simp add: polynomial_hash_def polynomial_spec_def)
qed

text \<open>
  C3. The polynomial hash with \<open>p = 31\<close> and \<open>m = 1000000009\<close> is claimed to equal
  the sum over the positions \<open>i\<close> of \<open>(char_code (s[i]) - char_code 'a' + 1) * p ^ i\<close>
  reduced modulo \<open>m\<close>. The code does not compute that for the string \<open>A\<close>: the
  character contributes \<open>-31\<close>, the conversion to \<^verbatim>\<open>unsigned long long\<close> turns it into
  \<open>2 ^ 64 - 31\<close>, and the remainder of that is 688856422, while the sum reduced modulo
  \<open>m\<close> is 999999978. The same happens at the dot of \<open>evil.com\<close>.
\<close>

theorem polynomial_hash_wraps:
  "polynomial_hash ''A'' 31 1000000009 = 688856422 \<and>
   polynomial_spec ''A'' 31 1000000009 = 999999978 \<and>
   uint (polynomial_hash ''A'' 31 1000000009) \<noteq> polynomial_spec ''A'' 31 1000000009 \<and>
   polynomial_hash ''evil.com'' 31 1000000009 = 705470003 \<and>
   polynomial_spec ''evil.com'' 31 1000000009 = 16613550"
  by (simp add: polynomial_spec_def hash_eval lessThan_nat_numeral lessThan_Suc)

section \<open>The filter operations in closed form\<close>

text \<open>
  Every position is reduced modulo the size of the bit array before it is used, so
  neither \<^verbatim>\<open>set\<close> nor \<^verbatim>\<open>test\<close> ever throws, and \<^verbatim>\<open>add\<close>, \<^verbatim>\<open>contains\<close> and the loops
  built from them have closed forms in terms of \<open>indices\<close>.
\<close>

lemma mod_bitset_size_less: "h mod bitset_size < bitset_size"
  by (simp add: bitset_size_def word_mod_less_divisor)

lemma bitset_set_mod:
  "bitset_set (h mod bitset_size) b = Inr (insert (unat (h mod bitset_size)) b)"
  by (simp add: bitset_set_def mod_bitset_size_less)

lemma bitset_test_mod:
  "bitset_test (h mod bitset_size) b = Inr (unat (h mod bitset_size) \<in> b)"
  by (simp add: bitset_test_def mod_bitset_size_less)

lemma add_eq: "add s bf = Inr (bf\<lparr>bits := bits bf \<union> indices bf s\<rparr>)"
  by (simp add: add_def Let_def bitset_set_mod indices_def insert_commute)

lemma contains_eq: "contains s bf = Inr (indices bf s \<subseteq> bits bf, bf)"
  by (simp add: contains_def Let_def bitset_test_mod indices_def)

lemma indices_bits_update: "indices (bf\<lparr>bits := b\<rparr>) s = indices bf s"
  by (simp add: indices_def)

lemma indices_size_update: "indices (bf\<lparr>size_bf := n\<rparr>) s = indices bf s"
  by (simp add: indices_def)

lemma add_all_eq:
  "add_all ss bf = Inr (bf\<lparr>bits := bits bf \<union> (\<Union>s\<in>set ss. indices bf s)\<rparr>)"
proof (induction ss arbitrary: bf)
  case Nil
  show ?case by simp
next
  case (Cons s ss)
  show ?case
    by (simp add: add_eq Cons.IH indices_bits_update Un_assoc)
qed

lemma load_lines_eq:
  "load_lines ls bf =
     Inr (bf\<lparr>size_bf := size_bf bf + of_nat (length ls),
             bits := bits bf \<union> (\<Union>s\<in>set ls. indices bf s)\<rparr>)"
proof (induction ls arbitrary: bf)
  case Nil
  show ?case by simp
next
  case (Cons s ls)
  show ?case
    by (simp add: add_eq Cons.IH indices_bits_update indices_size_update Un_assoc
        add.assoc add.commute)
qed

lemma test_loop_eq:
  "test_loop ls bf positives negatives urls out =
     Inr (bf,
          positives + of_nat (length (filter (\<lambda>l. indices bf l \<subseteq> bits bf) ls)),
          negatives + of_nat (length (filter (\<lambda>l. \<not> indices bf l \<subseteq> bits bf) ls)),
          urls @ filter (\<lambda>l. indices bf l \<subseteq> bits bf) ls,
          out @ map (\<lambda>l. Checking l (indices bf l \<subseteq> bits bf)) ls)"
proof (induction ls arbitrary: positives negatives urls out)
  case Nil
  show ?case by simp
next
  case (Cons l ls)
  show ?case
    by (simp add: contains_eq Cons.IH)
qed

lemma indices_nat:
  "p bf = 31 \<Longrightarrow> m bf = 1000000009 \<Longrightarrow>
   indices bf s =
     {unat (polynomial_hash s 31 1000000009) mod 1000001,
      unat (djb2 s) mod 1000000009 mod 1000001,
      unat (sdbm s) mod 1000000009 mod 1000001}"
  by (simp add: indices_def bitset_size_def unat_mod)

section \<open>The claims about the filter\<close>

lemma possibly_malicious_eq: "possibly_malicious bf s = (indices bf s \<subseteq> bits bf)"
  by (simp add: possibly_malicious_def contains_eq)

lemma sint_count: "n < 2 ^ 31 \<Longrightarrow> sint (of_nat n :: cint) = int n"
  by (simp add: signed_of_nat signed_take_bit_int_eq_self)

text \<open>
  C1. No false negatives: for every string \<open>s\<close> and every filter, \<^verbatim>\<open>add(s)\<close> succeeds
  and \<^verbatim>\<open>contains(s)\<close> is true right after it, and is still true after any further
  sequence \<open>ts\<close> of \<^verbatim>\<open>add\<close> calls.
\<close>

theorem no_false_negatives:
  "\<exists>bf1 bf2. add s bf = Inr bf1 \<and> contains s bf1 = Inr (True, bf1) \<and>
             add_all ts bf1 = Inr bf2 \<and> contains s bf2 = Inr (True, bf2)"
  by (auto simp add: add_eq add_all_eq contains_eq indices_bits_update)

text \<open>
  C2. On a filter with the parameters \<open>p = 31\<close> and \<open>m = 1000000009\<close> of the class,
  \<^verbatim>\<open>add(s)\<close> always succeeds, sets exactly the bits at \<open>polynomial_hash(s, p, m) mod N\<close>,
  \<open>(djb2(s) mod m) mod N\<close> and \<open>(sdbm(s) mod m) mod N\<close> with \<open>N = 1000001\<close> (as a set, so
  colliding positions count once) and changes nothing else; \<^verbatim>\<open>contains(s)\<close> is true
  exactly when the bits at these three positions are all set.
\<close>

theorem add_contains_indices:
  assumes "p bf = 31" and "m bf = 1000000009"
  shows "add s bf =
           Inr (bf\<lparr>bits := bits bf \<union>
                  {unat (polynomial_hash s 31 1000000009) mod 1000001,
                   unat (djb2 s) mod 1000000009 mod 1000001,
                   unat (sdbm s) mod 1000000009 mod 1000001}\<rparr>) \<and>
         contains s bf =
           Inr (unat (polynomial_hash s 31 1000000009) mod 1000001 \<in> bits bf \<and>
                unat (djb2 s) mod 1000000009 mod 1000001 \<in> bits bf \<and>
                unat (sdbm s) mod 1000000009 mod 1000001 \<in> bits bf, bf)"
  using assms by (simp add: add_eq contains_eq indices_nat)

theorem add_contains_indices_witness:
  "add ''evil.com'' \<lparr>p = 31, m = 1000000009, size_bf = 0, filename = ''malicious.csv'', bits = {}\<rparr>
     = Inr \<lparr>p = 31, m = 1000000009, size_bf = 0, filename = ''malicious.csv'',
            bits = {469298, 624352, 364335}\<rparr> \<and>
   contains ''evil.com'' \<lparr>p = 31, m = 1000000009, size_bf = 0, filename = ''malicious.csv'', bits = {}\<rparr>
     = Inr (False, \<lparr>p = 31, m = 1000000009, size_bf = 0, filename = ''malicious.csv'', bits = {}\<rparr>)"
  using add_contains_indices [of "\<lparr>p = 31, m = 1000000009, size_bf = 0, filename = ''malicious.csv'', bits = {}\<rparr>" "''evil.com''"]
  by (simp add: hash_eval)

text \<open>
  C5. On a filter whose bits are all false \<^verbatim>\<open>contains(s)\<close> is false for every string
  \<open>s\<close>, the non-empty ones in particular; the constructor yields such a filter when no
  \<^verbatim>\<open>add\<close> call occurs, that is when the file cannot be opened or has no line.
\<close>

theorem empty_filter_negative:
  "(bits bf = {} \<longrightarrow> contains s bf = Inr (False, bf)) \<and>
   (fs fname = None \<or> fs fname = Some [] \<longrightarrow>
      (\<exists>bf' out. BloomFilter fs fname = Inr (bf', out) \<and> bits bf' = {} \<and>
                 contains s bf' = Inr (False, bf')))"
  by (auto simp add: contains_eq BloomFilter_def indices_def)

theorem empty_filter_negative_witness:
  "contains ''evil.com''
     \<lparr>p = 31, m = 1000000009, size_bf = 0, filename = ''malicious.csv'', bits = {}\<rparr> =
     Inr (False, \<lparr>p = 31, m = 1000000009, size_bf = 0, filename = ''malicious.csv'', bits = {}\<rparr>) \<and>
   (\<exists>bf' out. BloomFilter (\<lambda>n. None) ''malicious.csv'' = Inr (bf', out) \<and> bits bf' = {} \<and>
              contains ''evil.com'' bf' = Inr (False, bf'))"
  using empty_filter_negative
    [of "\<lparr>p = 31, m = 1000000009, size_bf = 0, filename = ''malicious.csv'', bits = {}\<rparr>"
        "''evil.com''" "\<lambda>n. None" "''malicious.csv''"]
  by simp

text \<open>
  C6. Idempotence: calling \<^verbatim>\<open>add(s)\<close> \<open>n + 1\<close> times leaves the filter as one call does.
  Order independence: two sequences of strings that are permutations of each other
  leave the filter in the same state, with the same set of true bits, whether they
  are added by a sequence of \<^verbatim>\<open>add\<close> calls or by the loop of the constructor.
\<close>

theorem add_idempotent_order_independent:
  "(\<exists>bf1. add s bf = Inr bf1 \<and> add_all (replicate (Suc n) s) bf = Inr bf1) \<and>
   (mset xs = mset ys \<longrightarrow>
      (\<exists>bf1. add_all xs bf = Inr bf1 \<and> add_all ys bf = Inr bf1) \<and>
      (\<exists>bf2. load_lines xs bf = Inr bf2 \<and> load_lines ys bf = Inr bf2))"
proof -
  have "set xs = set ys" if "mset xs = mset ys"
    using that by (metis set_mset_mset)
  moreover have "length xs = length ys" if "mset xs = mset ys"
    using that by (rule mset_eq_length)
  moreover have "bits bf \<union> (indices bf s \<union> (\<Union>t\<in>set (replicate n s). indices bf t)) =
      bits bf \<union> indices bf s"
    by auto
  ultimately show ?thesis
    by (simp add: add_eq add_all_eq load_lines_eq indices_bits_update)
qed

theorem add_idempotent_order_independent_witness:
  "\<exists>bf1. add_all [''a'', ''b'']
            \<lparr>p = 31, m = 1000000009, size_bf = 0, filename = ''malicious.csv'', bits = {}\<rparr> = Inr bf1 \<and>
         add_all [''b'', ''a'']
            \<lparr>p = 31, m = 1000000009, size_bf = 0, filename = ''malicious.csv'', bits = {}\<rparr> = Inr bf1 \<and>
         bits bf1 = {1, 2, 97, 98, 177670, 177671}"
proof -
  have perm: "mset [''a'', ''b''] = mset [''b'', ''a'']"
    by (simp add: add_mset_commute)
  have bits_ab: "bits bf1 = {1, 2, 97, 98, 177670, 177671}"
    if "add_all [''a'', ''b'']
          \<lparr>p = 31, m = 1000000009, size_bf = 0, filename = ''malicious.csv'', bits = {}\<rparr> = Inr bf1"
    for bf1
    using that by (auto simp add: add_all_eq indices_def bitset_size_def hash_eval)
  from add_idempotent_order_independent
    [of "''a''" "\<lparr>p = 31, m = 1000000009, size_bf = 0, filename = ''malicious.csv'', bits = {}\<rparr>"
        0 "[''a'', ''b'']" "[''b'', ''a'']"] perm
  obtain bf1 where
    "add_all [''a'', ''b'']
       \<lparr>p = 31, m = 1000000009, size_bf = 0, filename = ''malicious.csv'', bits = {}\<rparr> = Inr bf1"
    "add_all [''b'', ''a'']
       \<lparr>p = 31, m = 1000000009, size_bf = 0, filename = ''malicious.csv'', bits = {}\<rparr> = Inr bf1"
    by blast
  with bits_ab show ?thesis by blast
qed

text \<open>
  C7, with the bound the counters need. The bulk test on a file with the lines
  \<open>cands\<close> calls \<^verbatim>\<open>contains\<close> on each line in order and reports the line with its
  answer, then the two totals, then the lines answered true, in order; the filter is
  returned unchanged. All of this holds for every sequence of lines. The totals are
  held in \<^verbatim>\<open>int\<close> counters: they are the number of true answers and the number of
  false answers whenever the file has fewer than \<open>2 ^ 31\<close> lines.
\<close>

theorem test_partition:
  assumes "fs fname = Some cands"
  shows "(\<forall>c. contains c bf = Inr (possibly_malicious bf c, bf)) \<and>
         test fs fname bf =
           Inr (bf,
                map (\<lambda>c. Checking c (possibly_malicious bf c)) cands @
                [Total_positives (of_nat (length (filter (possibly_malicious bf) cands))),
                 Total_negatives (of_nat (length (filter (\<lambda>c. \<not> possibly_malicious bf c) cands)))] @
                (if filter (possibly_malicious bf) cands \<noteq> []
                 then Malicious_header # map Malicious_url (filter (possibly_malicious bf) cands)
                 else [No_malicious])) \<and>
         (length cands < 2 ^ 31 \<longrightarrow>
            sint (of_nat (length (filter (possibly_malicious bf) cands)) :: cint) =
              int (length (filter (possibly_malicious bf) cands)) \<and>
            sint (of_nat (length (filter (\<lambda>c. \<not> possibly_malicious bf c) cands)) :: cint) =
              int (length (filter (\<lambda>c. \<not> possibly_malicious bf c) cands)))"
proof (intro conjI allI impI)
  fix c
  show "contains c bf = Inr (possibly_malicious bf c, bf)"
    by (simp add: possibly_malicious_eq contains_eq)
next
  have pm: "possibly_malicious bf = (\<lambda>l. indices bf l \<subseteq> bits bf)"
    by (rule ext) (rule possibly_malicious_eq)
  show "test fs fname bf =
           Inr (bf,
                map (\<lambda>c. Checking c (possibly_malicious bf c)) cands @
                [Total_positives (of_nat (length (filter (possibly_malicious bf) cands))),
                 Total_negatives (of_nat (length (filter (\<lambda>c. \<not> possibly_malicious bf c) cands)))] @
                (if filter (possibly_malicious bf) cands \<noteq> []
                 then Malicious_header # map Malicious_url (filter (possibly_malicious bf) cands)
                 else [No_malicious]))"
    using assms by (simp add: test_def test_loop_eq pm)
next
  assume len: "length cands < 2 ^ 31"
  have "length (filter (possibly_malicious bf) cands) \<le> length cands"
    by (rule length_filter_le)
  then have "length (filter (possibly_malicious bf) cands) < 2 ^ 31"
    using len by (rule le_less_trans)
  then show "sint (of_nat (length (filter (possibly_malicious bf) cands)) :: cint) =
              int (length (filter (possibly_malicious bf) cands))"
    by (rule sint_count)
next
  assume len: "length cands < 2 ^ 31"
  have "length (filter (\<lambda>c. \<not> possibly_malicious bf c) cands) \<le> length cands"
    by (rule length_filter_le)
  then have "length (filter (\<lambda>c. \<not> possibly_malicious bf c) cands) < 2 ^ 31"
    using len by (rule le_less_trans)
  then show "sint (of_nat (length (filter (\<lambda>c. \<not> possibly_malicious bf c) cands)) :: cint) =
              int (length (filter (\<lambda>c. \<not> possibly_malicious bf c) cands))"
    by (rule sint_count)
qed

theorem test_partition_witness:
  "test (\<lambda>n. if n = ''candidates.txt'' then Some [''a'', ''d''] else None) ''candidates.txt''
     \<lparr>p = 31, m = 1000000009, size_bf = 3, filename = ''malicious.csv'',
      bits = {1, 2, 3, 97, 98, 99, 177670, 177671, 177672}\<rparr> =
   Inr (\<lparr>p = 31, m = 1000000009, size_bf = 3, filename = ''malicious.csv'',
         bits = {1, 2, 3, 97, 98, 99, 177670, 177671, 177672}\<rparr>,
        [Checking ''a'' True, Checking ''d'' False, Total_positives 1, Total_negatives 1,
         Malicious_header, Malicious_url ''a''])"
  using test_partition
    [of "\<lambda>n. if n = ''candidates.txt'' then Some [''a'', ''d''] else None" "''candidates.txt''"
        "[''a'', ''d'']"
        "\<lparr>p = 31, m = 1000000009, size_bf = 3, filename = ''malicious.csv'',
          bits = {1, 2, 3, 97, 98, 99, 177670, 177671, 177672}\<rparr>"]
  by (simp add: possibly_malicious_eq indices_def bitset_size_def hash_eval)

text \<open>
  Without the bound the totals are not the counts. On the empty filter a file of
  \<open>2 ^ 31\<close> blank lines gets the answer false on every line, so the number of false
  answers is 2147483648; the \<^verbatim>\<open>int\<close> counter of the negatives has then wrapped to the
  32-bit value whose signed reading, the number printed, is \<open>-2147483648\<close>.
\<close>

theorem test_totals_overflow:
  "test (map_of [(''blank.txt'', replicate 2147483648 [])]) ''blank.txt''
     \<lparr>p = 31, m = 1000000009, size_bf = 0, filename = ''malicious.csv'', bits = {}\<rparr> =
     Inr (\<lparr>p = 31, m = 1000000009, size_bf = 0, filename = ''malicious.csv'', bits = {}\<rparr>,
          replicate 2147483648 (Checking [] False) @
          [Total_positives 0, Total_negatives 2147483648, No_malicious]) \<and>
   contains []
     \<lparr>p = 31, m = 1000000009, size_bf = 0, filename = ''malicious.csv'', bits = {}\<rparr> =
     Inr (False, \<lparr>p = 31, m = 1000000009, size_bf = 0, filename = ''malicious.csv'', bits = {}\<rparr>) \<and>
   length (replicate 2147483648 ([] :: string)) = 2147483648 \<and>
   sint (2147483648 :: cint) = - 2147483648 \<and>
   sint (2147483648 :: cint) \<noteq> 2147483648"
proof -
  let ?bf = "\<lparr>p = 31, m = 1000000009, size_bf = 0, filename = ''malicious.csv'', bits = {}\<rparr>"
  have c: "contains [] ?bf = Inr (False, ?bf)"
    by (simp add: contains_eq indices_def)
  have t: "test (map_of [(''blank.txt'', replicate 2147483648 [])]) ''blank.txt'' ?bf =
     Inr (?bf, replicate 2147483648 (Checking [] False) @
          [Total_positives 0, Total_negatives 2147483648, No_malicious])"
    by (simp add: test_def test_loop_eq filter_replicate indices_def)
  have s: "sint (2147483648 :: cint) = - 2147483648"
    by simp
  show ?thesis
    by (simp only: t c s length_replicate) simp
qed

text \<open>
  C8. When the file cannot be opened, the constructor reports it and yields the empty
  filter with the count 0; the bulk test reports it, checks no line, prints the
  totals 0 and 0 and that no URL matched, and leaves the filter as it was.
\<close>

theorem unopenable_file:
  assumes "fs fname = None"
  shows "BloomFilter fs fname =
           Inr (\<lparr>p = 31, m = 1000000009, size_bf = 0, filename = fname, bits = {}\<rparr>,
                [Unable_to_open fname]) \<and>
         test fs fname bf =
           Inr (bf, [Unable_to_open fname, Total_positives 0, Total_negatives 0, No_malicious])"
  using assms by (simp add: BloomFilter_def test_def)

theorem unopenable_file_witness:
  "BloomFilter (\<lambda>n. None) ''malicious.csv'' =
     Inr (\<lparr>p = 31, m = 1000000009, size_bf = 0, filename = ''malicious.csv'', bits = {}\<rparr>,
          [Unable_to_open ''malicious.csv'']) \<and>
   test (\<lambda>n. None) ''malicious.csv''
     \<lparr>p = 31, m = 1000000009, size_bf = 1, filename = ''known.csv'', bits = {1, 97, 177670}\<rparr> =
     Inr (\<lparr>p = 31, m = 1000000009, size_bf = 1, filename = ''known.csv'', bits = {1, 97, 177670}\<rparr>,
          [Unable_to_open ''malicious.csv'', Total_positives 0, Total_negatives 0, No_malicious])"
  using unopenable_file
    [of "\<lambda>n. None" "''malicious.csv''"
        "\<lparr>p = 31, m = 1000000009, size_bf = 1, filename = ''known.csv'', bits = {1, 97, 177670}\<rparr>"]
  by simp

text \<open>
  C9. The polynomial hash and SDBM of the empty string are 0 and its DJB2 is 5381, so
  on a filter with \<open>m = 1000000009\<close> the positions of the empty string are the two
  positions 0 and 5381, and \<^verbatim>\<open>add\<close> of the empty string sets exactly these two bits.
\<close>

theorem add_empty_string:
  assumes "m bf = 1000000009"
  shows "polynomial_hash [] (p bf) (m bf) = 0 \<and> sdbm [] = 0 \<and> djb2 [] = 5381 \<and>
         indices bf [] = {0, 5381} \<and> card (indices bf []) = 2 \<and>
         add [] bf = Inr (bf\<lparr>bits := bits bf \<union> {0, 5381}\<rparr>)"
proof -
  from assms have idx: "indices bf [] = {0, 5381}"
    by (auto simp add: indices_def polynomial_hash_def sdbm_def djb2_def bitset_size_def)
  show ?thesis
    by (simp add: add_eq idx polynomial_hash_def sdbm_def djb2_def)
qed

theorem add_empty_string_witness:
  "add []
     \<lparr>p = 31, m = 1000000009, size_bf = 0, filename = ''malicious.csv'', bits = {}\<rparr> =
   Inr \<lparr>p = 31, m = 1000000009, size_bf = 0, filename = ''malicious.csv'', bits = {0, 5381}\<rparr>"
  using add_empty_string
    [of "\<lparr>p = 31, m = 1000000009, size_bf = 0, filename = ''malicious.csv'', bits = {}\<rparr>"]
  by simp

text \<open>
  C10. \<^verbatim>\<open>add\<close> changes the bit array only: the count \<^verbatim>\<open>size\<close>, the parameters \<open>p\<close> and
  \<open>m\<close> and the file name are as before, so a direct \<^verbatim>\<open>add\<close> does not count the item.
  \<^verbatim>\<open>contains\<close> and the bulk test return the filter unchanged. The count is set by the
  constructor alone: 0 when the file cannot be opened, the number of lines otherwise.
\<close>

theorem add_changes_bits_only:
  "(\<exists>bf'. add s bf = Inr bf' \<and> size_bf bf' = size_bf bf \<and> p bf' = p bf \<and> m bf' = m bf \<and>
          filename bf' = filename bf) \<and>
   (\<exists>r. contains s bf = Inr (r, bf)) \<and>
   (\<exists>out. test fs fname bf = Inr (bf, out)) \<and>
   (\<exists>bf' out. BloomFilter fs fname = Inr (bf', out) \<and>
        size_bf bf' = (case fs fname of None \<Rightarrow> 0 | Some ls \<Rightarrow> of_nat (length ls)) \<and>
        p bf' = 31 \<and> m bf' = 1000000009 \<and> filename bf' = fname)"
  by (simp add: add_eq contains_eq test_def test_loop_eq BloomFilter_def load_lines_eq
      split: option.split)

end
